theory Spec2Isabelle
  imports Main "HOL-Library.Sublist"
begin

section \<open>Data model\<close>

text \<open>
  The order bot keeps one durable entity, the order, as a JSON object in the array stored
  in \<^verbatim>\<open>./orders.json\<close>. The fields are those of the object literal pushed by the
  \<^verbatim>\<open>POST /inquiry\<close> handler, in the order written there. Strings are byte
  lists; a character outside ASCII is written as its UTF-8 bytes. \<^verbatim>\<open>paidAt\<close> is
  \<^verbatim>\<open>null\<close> or an ISO time string. The field \<^verbatim>\<open>notes\<close> is named
  \<open>order_notes\<close> here, \<open>notes\<close> being a keyword of the proof language.
\<close>

record order =
  uuid :: string
  status :: string
  payment :: string
  discordUsername :: string
  clientDiscordId :: string
  serverName :: string
  serverInvite :: string
  serviceType :: string
  budget :: string
  paymentMethod :: string
  projectDetails :: string
  createdAt :: string
  paidAt :: "string option"
  order_notes :: string

text \<open>
  What \<^verbatim>\<open>JSON.parse\<close> can return for the orders file, as far as the handlers
  distinguish it: \<^verbatim>\<open>null\<close> (whose \<^verbatim>\<open>.length\<close> throws) or an array of orders.
\<close>

datatype json = JsonNull | JsonArray "order list"

text \<open>
  The orders file as \<^verbatim>\<open>fs.readFile\<close> followed by \<^verbatim>\<open>JSON.parse\<close> sees it:
  the read throws (no file), the parse throws (text that is not JSON), or a value comes
  back. \<^verbatim>\<open>JSON.stringify\<close> followed by \<^verbatim>\<open>JSON.parse\<close> is taken to be the
  identity on arrays of orders.
\<close>

datatype orders_file = Missing | Unparseable | Parsed json

text \<open>
  How a call of \<^verbatim>\<open>fs.writeFile\<close> ends: the promise resolves and the file holds the
  new text; it rejects before the file was opened for writing; or it rejects after the file
  was truncated, leaving text that does not parse.
\<close>

datatype write_outcome = WriteOk | WriteFailedUntouched | WriteFailedTruncated

datatype error =
  StorageError | NotConfigured | MissingFields | InvalidDiscordId | SendFailed | TypeError

text \<open>
  The module-level variables \<^verbatim>\<open>ordersCache\<close> (initially \<^verbatim>\<open>null\<close>; any array,
  also the empty one, is truthy) and \<^verbatim>\<open>lastOrdersLoad\<close> (milliseconds), the
  contents of the orders file, and a count of the calls of \<^verbatim>\<open>fs.writeFile\<close> on it.
\<close>

record state =
  ordersCache :: "order list option"
  lastOrdersLoad :: int
  ordersFile :: orders_file
  writeCalls :: nat

text \<open>
  What a handler reads from its surroundings while it runs: the clock at the call of
  \<^verbatim>\<open>loadOrders\<close> and at the call of \<^verbatim>\<open>saveOrders\<close>, the outcome of the file
  write, the value of \<^verbatim>\<open>new Date().toISOString()\<close>, the value of
  \<^verbatim>\<open>randomUUID()\<close>, whether \<^verbatim>\<open>getChannel()\<close> resolves and whether
  \<^verbatim>\<open>channel.send\<close> resolves.
\<close>

record env =
  now_load :: int
  now_save :: int
  write_result :: write_outcome
  iso_time :: string
  random_uuid :: string
  channel_ok :: bool
  send_ok :: bool

definition initial_state :: state where
  "initial_state =
     \<lparr>ordersCache = None, lastOrdersLoad = 0, ordersFile = Missing, writeCalls = 0\<rparr>"

definition MAX_ORDERS_MEMORY :: nat where
  "MAX_ORDERS_MEMORY = 500"

definition CACHE_TTL :: int where
  "CACHE_TTL = 30000"

section \<open>Store and cache\<close>

text \<open>
  \<^verbatim>\<open>Array.prototype.slice(start)\<close>: a negative start counts from the end and is
  clamped at the first element, a start beyond the end gives the empty array.
\<close>

definition slice_from :: "int \<Rightarrow> 'a list \<Rightarrow> 'a list" where
  "slice_from start xs =
     (let n = int (length xs);
          k = (if start < 0 then max (n + start) 0 else min start n)
      in drop (nat k) xs)"

text \<open>
  \<^verbatim>\<open>loadOrders\<close>: a populated cache younger than the time to live is returned as
  it is. Otherwise the file is read; more than \<^verbatim>\<open>MAX_ORDERS_MEMORY\<close> orders are cut
  to the last ones; a failed read, a failed parse and \<^verbatim>\<open>null\<close> all end in the
  \<^verbatim>\<open>catch\<close> branch.
\<close>

definition loadOrders :: "int \<Rightarrow> state \<Rightarrow> order list \<times> state" where
  "loadOrders now s =
     (if ordersCache s \<noteq> None \<and> now - lastOrdersLoad s < CACHE_TTL
      then (the (ordersCache s), s)
      else
        (case ordersFile s of
           Parsed (JsonArray parsed) \<Rightarrow>
             (let orders =
                    (if length parsed > MAX_ORDERS_MEMORY
                     then slice_from (- int MAX_ORDERS_MEMORY) parsed else parsed)
              in (orders, s\<lparr>ordersCache := Some orders, lastOrdersLoad := now\<rparr>))
         | _ \<Rightarrow> ([], s\<lparr>ordersCache := Some [], lastOrdersLoad := now\<rparr>)))"

text \<open>The file write of \<^verbatim>\<open>saveOrders\<close>, with its three outcomes.\<close>

definition writeFile :: "orders_file \<Rightarrow> write_outcome \<Rightarrow> state \<Rightarrow> (error + unit) \<times> state" where
  "writeFile content w s =
     (case w of
        WriteOk \<Rightarrow> (Inr (), s\<lparr>ordersFile := content, writeCalls := Suc (writeCalls s)\<rparr>)
      | WriteFailedUntouched \<Rightarrow> (Inl StorageError, s\<lparr>writeCalls := Suc (writeCalls s)\<rparr>)
      | WriteFailedTruncated \<Rightarrow>
          (Inl StorageError, s\<lparr>ordersFile := Unparseable, writeCalls := Suc (writeCalls s)\<rparr>))"

text \<open>
  \<^verbatim>\<open>saveOrders\<close>: the two assignments to the cache variables come first, the file
  write after them.
\<close>

definition saveOrders :: "order list \<Rightarrow> int \<Rightarrow> write_outcome \<Rightarrow> state \<Rightarrow> (error + unit) \<times> state" where
  "saveOrders orders now w s =
     writeFile (Parsed (JsonArray orders)) w
       (s\<lparr>ordersCache := Some orders, lastOrdersLoad := now\<rparr>)"

text \<open>
  The older server (\<^verbatim>\<open>backend_additions.js\<close>) has no cache: its
  \<^verbatim>\<open>loadOrders\<close> returns whatever \<^verbatim>\<open>JSON.parse\<close> gives and the empty array
  when the read or the parse throws.
\<close>

definition loadOrders_sync :: "orders_file \<Rightarrow> json" where
  "loadOrders_sync f = (case f of Parsed v \<Rightarrow> v | _ \<Rightarrow> JsonArray [])"


section \<open>Lookups\<close>

text \<open>
  \<^verbatim>\<open>String.prototype.startsWith\<close>: the characters of the second string are compared
  one by one with the first characters of the first string.
\<close>

fun startsWith :: "string \<Rightarrow> string \<Rightarrow> bool" where
  "startsWith s [] = True"
| "startsWith [] (c # p) = False"
| "startsWith (x # s) (c # p) = (x = c \<and> startsWith s p)"

text \<open>
  \<^verbatim>\<open>Array.prototype.findIndex\<close>, with \<open>None\<close> for the result \<^verbatim>\<open>-1\<close>.
  \<^verbatim>\<open>Array.prototype.find\<close> is \<^const>\<open>List.find\<close>, with \<open>None\<close> for
  \<^verbatim>\<open>undefined\<close>.
\<close>

fun findIndex :: "('a \<Rightarrow> bool) \<Rightarrow> 'a list \<Rightarrow> nat option" where
  "findIndex P [] = None"
| "findIndex P (x # xs) = (if P x then Some 0 else map_option Suc (findIndex P xs))"

text \<open>
  The loop of the accept and decline buttons,
  \<^verbatim>\<open>for (let i = orders.length - 1; i >= 0; i--)\<close>, with the counter shifted by one:
  \<open>lastPendingFrom orders d (Suc i)\<close> looks at index \<open>i\<close> and goes on below it,
  \<open>lastPendingFrom orders d 0\<close> is the end of the loop with \<^verbatim>\<open>idx\<close> still \<^verbatim>\<open>-1\<close>.
\<close>

fun lastPendingFrom :: "order list \<Rightarrow> string \<Rightarrow> nat \<Rightarrow> nat option" where
  "lastPendingFrom orders discordId 0 = None"
| "lastPendingFrom orders discordId (Suc i) =
     (if clientDiscordId (orders ! i) = discordId \<and> status (orders ! i) = ''Pending''
      then Some i else lastPendingFrom orders discordId i)"

definition findLatestPending :: "order list \<Rightarrow> string \<Rightarrow> nat option" where
  "findLatestPending orders discordId = lastPendingFrom orders discordId (length orders)"

section \<open>Chat commands\<close>

text \<open>
  The two payment labels, \<^verbatim>\<open>U+2705\<close> and \<^verbatim>\<open>U+23F3\<close> in UTF-8 before the
  words, and the budget choice with its dash \<^verbatim>\<open>U+2014\<close>.
\<close>

definition PAID :: string where
  "PAID = [CHR 0xE2, CHR 0x9C, CHR 0x85] @ '' Paid''"

definition UNPAID :: string where
  "UNPAID = [CHR 0xE2, CHR 0x8F, CHR 0xB3] @ '' Unpaid''"

definition CUSTOM_BUDGET :: string where
  "CUSTOM_BUDGET = ''Custom '' @ [CHR 0xE2, CHR 0x80, CHR 0x94] @ '' DM me''"

text \<open>
  What a command answers: the usage line, the not-found line, the details of an order, or
  the confirmation for the order at an index. A command argument that is absent is the
  empty string (both are falsy).
\<close>

datatype reply = Usage | NoOrderFound | OrderDetails order | OrderUpdated nat

text \<open>\<^verbatim>\<open>!order <uuid>\<close>\<close>

definition orderCmd :: "string \<Rightarrow> env \<Rightarrow> state \<Rightarrow> (error + reply) \<times> state" where
  "orderCmd arg e s =
     (if arg = [] then (Inr Usage, s)
      else
        (let (orders, s1) = loadOrders (now_load e) s
         in (case List.find (\<lambda>x. startsWith (uuid x) arg) orders of
               None \<Rightarrow> (Inr NoOrderFound, s1)
             | Some ord \<Rightarrow> (Inr (OrderDetails ord), s1))))"

text \<open>\<^verbatim>\<open>!paid <uuid>\<close> (\<open>paid\<close> true) and \<^verbatim>\<open>!unpaid <uuid>\<close> (\<open>paid\<close> false)\<close>

definition paidCmd :: "bool \<Rightarrow> string \<Rightarrow> env \<Rightarrow> state \<Rightarrow> (error + reply) \<times> state" where
  "paidCmd paid arg e s =
     (if arg = [] then (Inr Usage, s)
      else
        (let (orders, s1) = loadOrders (now_load e) s
         in (case findIndex (\<lambda>x. startsWith (uuid x) arg) orders of
               None \<Rightarrow> (Inr NoOrderFound, s1)
             | Some idx \<Rightarrow>
                 (let orders1 = orders[idx := (orders ! idx)\<lparr>payment := (if paid then PAID else UNPAID)\<rparr>];
                      orders2 = orders1[idx := (orders1 ! idx)\<lparr>paidAt := (if paid then Some (iso_time e) else None)\<rparr>];
                      (r, s2) = saveOrders orders2 (now_save e) (write_result e) s1
                  in (case r of Inl err \<Rightarrow> (Inl err, s2) | Inr u \<Rightarrow> (Inr (OrderUpdated idx), s2))))))"

text \<open>\<^verbatim>\<open>!setstatus <uuid> <status>\<close>\<close>

definition setstatusCmd :: "string \<Rightarrow> string \<Rightarrow> env \<Rightarrow> state \<Rightarrow> (error + reply) \<times> state" where
  "setstatusCmd arg newStatus e s =
     (if arg = [] \<or> newStatus = [] then (Inr Usage, s)
      else
        (let (orders, s1) = loadOrders (now_load e) s
         in (case findIndex (\<lambda>x. startsWith (uuid x) arg) orders of
               None \<Rightarrow> (Inr NoOrderFound, s1)
             | Some idx \<Rightarrow>
                 (let orders1 = orders[idx := (orders ! idx)\<lparr>status := newStatus\<rparr>];
                      (r, s2) = saveOrders orders1 (now_save e) (write_result e) s1
                  in (case r of Inl err \<Rightarrow> (Inl err, s2) | Inr u \<Rightarrow> (Inr (OrderUpdated idx), s2))))))"

text \<open>\<^verbatim>\<open>!note <uuid> <text>\<close>\<close>

definition noteCmd :: "string \<Rightarrow> string \<Rightarrow> env \<Rightarrow> state \<Rightarrow> (error + reply) \<times> state" where
  "noteCmd arg newNote e s =
     (if arg = [] \<or> newNote = [] then (Inr Usage, s)
      else
        (let (orders, s1) = loadOrders (now_load e) s
         in (case findIndex (\<lambda>x. startsWith (uuid x) arg) orders of
               None \<Rightarrow> (Inr NoOrderFound, s1)
             | Some idx \<Rightarrow>
                 (let orders1 = orders[idx := (orders ! idx)\<lparr>order_notes := newNote\<rparr>];
                      (r, s2) = saveOrders orders1 (now_save e) (write_result e) s1
                  in (case r of Inl err \<Rightarrow> (Inl err, s2) | Inr u \<Rightarrow> (Inr (OrderUpdated idx), s2))))))"

section \<open>Accept and decline buttons\<close>

datatype action = Accept | Decline

definition decisionStatus :: "action \<Rightarrow> string" where
  "decisionStatus a = (case a of Accept \<Rightarrow> ''Accepted'' | Decline \<Rightarrow> ''Declined'')"

text \<open>
  The store part of the button handler. The result is the index of the order whose status
  was set, \<open>None\<close> when the loop found no order, and the error when the write threw (the
  handler's \<^verbatim>\<open>catch\<close> logs it). The update of the message and the follow-up that come
  after it on both paths do not touch the orders.
\<close>

definition acceptDecline :: "action \<Rightarrow> string \<Rightarrow> env \<Rightarrow> state \<Rightarrow> (error + nat option) \<times> state" where
  "acceptDecline a discordId e s =
     (let (orders, s1) = loadOrders (now_load e) s
      in (case findLatestPending orders discordId of
            None \<Rightarrow> (Inr None, s1)
          | Some idx \<Rightarrow>
              (let orders1 = orders[idx := (orders ! idx)\<lparr>status := decisionStatus a\<rparr>];
                   (r, s2) = saveOrders orders1 (now_save e) (write_result e) s1
               in (case r of Inl err \<Rightarrow> (Inl err, s2) | Inr u \<Rightarrow> (Inr (Some idx), s2)))))"

text \<open>
  The older server has one branch for each button, the same but for the status written. It
  reads the file at each call, finds the order with \<^verbatim>\<open>findLastIndex\<close> and writes
  the file with \<^verbatim>\<open>fs.writeFileSync\<close>; nothing catches what these throw. On
  \<^verbatim>\<open>null\<close> the call of \<^verbatim>\<open>findLastIndex\<close> throws.
\<close>

fun findLastIndexFrom :: "('a \<Rightarrow> bool) \<Rightarrow> 'a list \<Rightarrow> nat \<Rightarrow> nat option" where
  "findLastIndexFrom P xs 0 = None"
| "findLastIndexFrom P xs (Suc i) = (if P (xs ! i) then Some i else findLastIndexFrom P xs i)"

definition findLastIndex :: "('a \<Rightarrow> bool) \<Rightarrow> 'a list \<Rightarrow> nat option" where
  "findLastIndex P xs = findLastIndexFrom P xs (length xs)"



section \<open>Order intake\<close>

text \<open>The body of a \<^verbatim>\<open>POST /inquiry\<close> request; an absent field is the empty string.\<close>

record inquiry =
  req_discordUsername :: string
  req_clientDiscordId :: string
  req_serverName :: string
  req_serverInvite :: string
  req_serverType :: string
  req_budget :: string
  req_paymentMethod :: string
  req_projectDetails :: string

text \<open>\<^verbatim>\<open>isValidSnowflake\<close>: the pattern \<^verbatim>\<open>/^\d{17,20}$/\<close>.\<close>

definition isDigit :: "char \<Rightarrow> bool" where
  "isDigit c = (c \<in> set ''0123456789'')"

definition isValidSnowflake :: "string \<Rightarrow> bool" where
  "isValidSnowflake d = (d \<noteq> [] \<and> 17 \<le> length d \<and> length d \<le> 20 \<and> list_all isDigit d)"

text \<open>
  The part of the handler that builds and stores the order: the identifier, the budget
  shown, \<^verbatim>\<open>loadOrders\<close>, \<^verbatim>\<open>orders.push\<close> and \<^verbatim>\<open>saveOrders\<close>.
\<close>

definition newOrder :: "inquiry \<Rightarrow> env \<Rightarrow> order" where
  "newOrder b e =
     (let isCustomBudget = (req_budget b = CUSTOM_BUDGET);
          budgetDisplay = (if isCustomBudget then ''Custom (to discuss)'' else req_budget b)
      in \<lparr>uuid = random_uuid e,
          status = ''Pending'',
          payment = UNPAID,
          discordUsername = req_discordUsername b,
          clientDiscordId = req_clientDiscordId b,
          serverName = req_serverName b,
          serverInvite = (if req_serverInvite b = [] then ''Not provided'' else req_serverInvite b),
          serviceType = req_serverType b,
          budget = budgetDisplay,
          paymentMethod = req_paymentMethod b,
          projectDetails = req_projectDetails b,
          createdAt = iso_time e,
          paidAt = None,
          order_notes = []\<rparr>)"

definition createOrder :: "inquiry \<Rightarrow> env \<Rightarrow> state \<Rightarrow> (error + order) \<times> state" where
  "createOrder b e s =
     (let (orders, s1) = loadOrders (now_load e) s;
          (r, s2) = saveOrders (orders @ [newOrder b e]) (now_save e) (write_result e) s1
      in (case r of Inl err \<Rightarrow> (Inl err, s2) | Inr u \<Rightarrow> (Inr (newOrder b e), s2)))"


definition postInquiry :: "inquiry \<Rightarrow> env \<Rightarrow> state \<Rightarrow> (error + string) \<times> state" where
  "postInquiry b e s =
     (if req_discordUsername b = [] \<or> req_clientDiscordId b = [] \<or> req_serverName b = [] \<or>
         req_serverType b = [] \<or> req_budget b = [] \<or> req_paymentMethod b = [] \<or>
         req_projectDetails b = []
      then (Inl MissingFields, s)
      else if \<not> isValidSnowflake (req_clientDiscordId b) then (Inl InvalidDiscordId, s)
      else if \<not> channel_ok e then (Inl NotConfigured, s)
      else
        (let (r, s1) = createOrder b e s
         in (case r of
               Inl err \<Rightarrow> (Inl err, s1)
             | Inr ord \<Rightarrow> if send_ok e then (Inr (uuid ord), s1) else (Inl SendFailed, s1))))"

section \<open>Operations as a whole\<close>

text \<open>Every operation that reads or changes the orders, and the state it leaves.\<close>

datatype command =
    Inquiry inquiry
  | ShowOrder string
  | MarkPaid bool string
  | SetStatus string string
  | SetNote string string
  | Decide action string

fun step :: "command \<Rightarrow> env \<Rightarrow> state \<Rightarrow> state" where
  "step (Inquiry b) e s = snd (postInquiry b e s)"
| "step (ShowOrder arg) e s = snd (orderCmd arg e s)"
| "step (MarkPaid paid arg) e s = snd (paidCmd paid arg e s)"
| "step (SetStatus arg st) e s = snd (setstatusCmd arg st e s)"
| "step (SetNote arg n) e s = snd (noteCmd arg n e s)"
| "step (Decide a d) e s = snd (acceptDecline a d e s)"

text \<open>
  The orders the cache holds and the orders the file holds; the payment invariant of one
  order and of a state.
\<close>

definition cachedOrders :: "state \<Rightarrow> order list" where
  "cachedOrders s = (case ordersCache s of Some xs \<Rightarrow> xs | None \<Rightarrow> [])"

definition fileOrders :: "orders_file \<Rightarrow> order list" where
  "fileOrders f = (case f of Parsed (JsonArray xs) \<Rightarrow> xs | _ \<Rightarrow> [])"

text \<open>
  What a reload keeps of the file: the last \<^verbatim>\<open>MAX_ORDERS_MEMORY\<close> orders of an array,
  nothing of anything else. The function \<open>loadOrders\<close> above does not use it; the lemma
  \<open>loadOrders_miss\<close> shows that a reload returns it.
\<close>

definition retained :: "orders_file \<Rightarrow> order list" where
  "retained f = drop (length (fileOrders f) - MAX_ORDERS_MEMORY) (fileOrders f)"

definition paidInv :: "order \<Rightarrow> bool" where
  "paidInv ord = ((paidAt ord \<noteq> None) = (payment ord = PAID))"

definition stateInv :: "state \<Rightarrow> bool" where
  "stateInv s = (list_all paidInv (cachedOrders s) \<and> list_all paidInv (fileOrders (ordersFile s)))"

text \<open>The operations that assign the payment fields: intake and the two payment commands.\<close>

definition setsPayment :: "command \<Rightarrow> bool" where
  "setsPayment c = (case c of Inquiry b \<Rightarrow> True | MarkPaid paid arg \<Rightarrow> True | _ \<Rightarrow> False)"

section \<open>Sample data\<close>

definition sample_order :: "string \<Rightarrow> string \<Rightarrow> order" where
  "sample_order u d =
     \<lparr>uuid = u, status = ''Pending'', payment = UNPAID, discordUsername = ''echo'',
      clientDiscordId = d, serverName = ''srv'', serverInvite = ''Not provided'',
      serviceType = ''Music Bot'', budget = ''$50'', paymentMethod = ''PayPal'',
      projectDetails = ''details'', createdAt = ''2024-01-01T00:00:00.000Z'',
      paidAt = None, order_notes = []\<rparr>"

definition sample_env :: env where
  "sample_env =
     \<lparr>now_load = 100000, now_save = 100001, write_result = WriteOk,
      iso_time = ''2024-02-02T00:00:00.000Z'',
      random_uuid = ''0b6e2c1a-7d43-4c55-9f10-3a2b1c0d9e8f'',
      channel_ok = True, send_ok = True\<rparr>"

definition sample_inquiry :: inquiry where
  "sample_inquiry =
     \<lparr>req_discordUsername = ''echo'', req_clientDiscordId = ''12345678901234567'',
      req_serverName = ''srv'', req_serverInvite = [], req_serverType = ''Unknown Category'',
      req_budget = ''$50'', req_paymentMethod = ''PayPal'', req_projectDetails = ''a bot''\<rparr>"

text \<open>The order number \<open>n\<close> of a store filled with distinct orders.\<close>

definition numbered_order :: "nat \<Rightarrow> order" where
  "numbered_order n = sample_order (''order-'' @ replicate n (CHR ''x'')) ''12345678901234567''"

definition full_store :: state where
  "full_store =
     \<lparr>ordersCache = None, lastOrdersLoad = 0,
      ordersFile = Parsed (JsonArray (map numbered_order [0..<500])), writeCalls = 0\<rparr>"

text \<open>
  Three pending orders, two of one client and one of another, in a cache that was loaded a
  second before \<open>sample_env\<close> reads it.
\<close>

definition three_orders :: "order list" where
  "three_orders =
     [sample_order ''a1b2c3d4-0001'' ''12345678901234567'',
      sample_order ''a1b2c3d4-0002'' ''12345678901234567'',
      sample_order ''ffff0000-0003'' ''76543210987654321'']"

definition warm_state :: state where
  "warm_state =
     \<lparr>ordersCache = Some three_orders, lastOrdersLoad = 99000,
      ordersFile = Parsed (JsonArray three_orders), writeCalls = 3\<rparr>"

text \<open>Two orders whose identifiers share the first three characters.\<close>

definition prefix_orders :: "order list" where
  "prefix_orders =
     [sample_order ''abc123'' ''12345678901234567'',
      sample_order ''abcd99'' ''12345678901234567'']"

section \<open>The cache in front of the file\<close>

lemma saveOrders_cache:
  "ordersCache (snd (saveOrders orders now w s)) = Some orders"
  by (cases w) (simp_all add: saveOrders_def writeFile_def)

lemma saveOrders_stamp:
  "lastOrdersLoad (snd (saveOrders orders now w s)) = now"
  by (cases w) (simp_all add: saveOrders_def writeFile_def)

lemma loadOrders_hit:
  "ordersCache s = Some c \<Longrightarrow> now - lastOrdersLoad s < CACHE_TTL \<Longrightarrow> loadOrders now s = (c, s)"
  by (simp add: loadOrders_def)

lemma slice_from_neg: "0 < n \<Longrightarrow> slice_from (- int n) xs = drop (length xs - n) xs"
proof (cases "n \<le> length xs")
  case True
  assume "0 < n"
  moreover from True have "nat (int (length xs) - int n) = length xs - n" by simp
  ultimately show ?thesis using True by (simp add: slice_from_def Let_def max_def)
next
  case False
  assume "0 < n"
  with False show ?thesis by (simp add: slice_from_def Let_def max_def)
qed

lemma loadOrders_miss:
  assumes "ordersCache s = None \<or> CACHE_TTL \<le> now - lastOrdersLoad s"
  shows "loadOrders now s =
           (retained (ordersFile s),
            s\<lparr>ordersCache := Some (retained (ordersFile s)), lastOrdersLoad := now\<rparr>)"
proof -
  have c: "(ordersCache s \<noteq> None \<and> now - lastOrdersLoad s < CACHE_TTL) = False"
    using assms by auto
  have m: "0 < MAX_ORDERS_MEMORY" by (simp add: MAX_ORDERS_MEMORY_def)
  show ?thesis
    unfolding loadOrders_def c
    by (simp add: retained_def fileOrders_def slice_from_neg [OF m] Let_def
             split: orders_file.split json.split)
qed

lemma loadOrders_cases:
  obtains (hit) c where "ordersCache s = Some c" "now - lastOrdersLoad s < CACHE_TTL"
                        "loadOrders now s = (c, s)"
        | (miss) "ordersCache s = None \<or> CACHE_TTL \<le> now - lastOrdersLoad s"
                 "loadOrders now s =
                    (retained (ordersFile s),
                     s\<lparr>ordersCache := Some (retained (ordersFile s)), lastOrdersLoad := now\<rparr>)"
proof (cases "ordersCache s \<noteq> None \<and> now - lastOrdersLoad s < CACHE_TTL")
  case True
  then obtain c where "ordersCache s = Some c" by auto
  with True show ?thesis using hit loadOrders_hit by blast
next
  case False
  then have "ordersCache s = None \<or> CACHE_TTL \<le> now - lastOrdersLoad s" by auto
  then show ?thesis using miss loadOrders_miss by blast
qed

lemma loadOrders_cache: "ordersCache (snd (loadOrders now s)) = Some (fst (loadOrders now s))"
  by (cases rule: loadOrders_cases [of s now]) simp_all




lemma saveOrders_result:
  "fst (saveOrders orders now w s) = (if w = WriteOk then Inr () else Inl StorageError)"
  by (cases w) (simp_all add: saveOrders_def writeFile_def)

lemma saveOrders_file:
  "ordersFile (snd (saveOrders orders now w s)) =
     (case w of WriteOk \<Rightarrow> Parsed (JsonArray orders)
              | WriteFailedUntouched \<Rightarrow> ordersFile s
              | WriteFailedTruncated \<Rightarrow> Unparseable)"
  by (cases w) (simp_all add: saveOrders_def writeFile_def)

lemma saveOrders_writes:
  "writeCalls (snd (saveOrders orders now w s)) = Suc (writeCalls s)"
  by (cases w) (simp_all add: saveOrders_def writeFile_def)

lemma createOrder_cache:
  "ordersCache (snd (createOrder b e s)) = Some (fst (loadOrders (now_load e) s) @ [newOrder b e])"
  by (simp add: createOrder_def split_def Let_def saveOrders_cache split: sum.split)

lemma createOrder_stamp:
  "lastOrdersLoad (snd (createOrder b e s)) = now_save e"
  by (simp add: createOrder_def split_def Let_def saveOrders_stamp split: sum.split)

lemma createOrder_file:
  "write_result e = WriteOk \<Longrightarrow>
   ordersFile (snd (createOrder b e s)) = Parsed (JsonArray (fst (loadOrders (now_load e) s) @ [newOrder b e]))"
  by (simp add: createOrder_def split_def Let_def saveOrders_file split: sum.split)


lemma full_store_load:
  "fst (loadOrders (now_load sample_env) full_store) = map numbered_order [0..<500]"
proof -
  have "ordersCache full_store = None \<or> CACHE_TTL \<le> now_load sample_env - lastOrdersLoad full_store"
    by (simp add: full_store_def)
  from loadOrders_miss [OF this] show ?thesis
    by (simp add: retained_def fileOrders_def full_store_def MAX_ORDERS_MEMORY_def)
qed

section \<open>Facts about the lookups\<close>

lemma startsWith_take: "startsWith s p = (take (length p) s = p)"
  by (induction s p rule: startsWith.induct) auto

lemma startsWith_prefix: "startsWith s p = prefix p s"
  by (induction s p rule: startsWith.induct) auto

lemma findIndex_Some:
  "findIndex P xs = Some i \<longleftrightarrow> i < length xs \<and> P (xs ! i) \<and> (\<forall>j<i. \<not> P (xs ! j))"
proof (induction xs arbitrary: i)
  case Nil
  then show ?case by simp
next
  case (Cons x xs)
  show ?case
  proof (cases "P x")
    case True
    then show ?thesis by (cases i) auto
  next
    case False
    show ?thesis
    proof (cases i)
      case 0
      with False show ?thesis by simp
    next
      case (Suc k)
      have "(\<forall>j<Suc k. \<not> P ((x # xs) ! j)) = (\<forall>j<k. \<not> P (xs ! j))"
        using False by (auto simp: less_Suc_eq_0_disj)
      with False Suc Cons.IH [of k] show ?thesis by auto
    qed
  qed
qed

lemma findIndex_None: "findIndex P xs = None \<longleftrightarrow> (\<forall>x\<in>set xs. \<not> P x)"
  by (induction xs) auto

lemma find_findIndex:
  "List.find P xs = (case findIndex P xs of None \<Rightarrow> None | Some i \<Rightarrow> Some (xs ! i))"
  by (induction xs) (auto split: option.split)


lemma lastPendingFrom_Some:
  "lastPendingFrom xs d n = Some i \<longleftrightarrow>
     i < n \<and> clientDiscordId (xs ! i) = d \<and> status (xs ! i) = ''Pending'' \<and>
     (\<forall>j. i < j \<and> j < n \<longrightarrow> \<not> (clientDiscordId (xs ! j) = d \<and> status (xs ! j) = ''Pending''))"
proof (induction n)
  case 0
  then show ?case by simp
next
  case (Suc n)
  show ?case
  proof (cases "clientDiscordId (xs ! n) = d \<and> status (xs ! n) = ''Pending''")
    case True
    then show ?thesis
      by (auto simp: less_Suc_eq) 
  next
    case False
    then show ?thesis
      using Suc by (auto simp: less_Suc_eq)
  qed
qed

lemma lastPendingFrom_None:
  "lastPendingFrom xs d n = None \<longleftrightarrow>
     (\<forall>j<n. \<not> (clientDiscordId (xs ! j) = d \<and> status (xs ! j) = ''Pending''))"
  by (induction n) (auto simp: less_Suc_eq)

section \<open>Facts about the handlers\<close>


lemma acceptDecline_none:
  assumes "findLatestPending (fst (loadOrders (now_load e) s)) d = None"
  shows "acceptDecline a d e s = (Inr None, snd (loadOrders (now_load e) s))"
  using assms by (simp add: acceptDecline_def split_def)

lemma acceptDecline_some:
  assumes "findLatestPending (fst (loadOrders (now_load e) s)) d = Some i"
  shows "acceptDecline a d e s =
           (if write_result e = WriteOk then Inr (Some i) else Inl StorageError,
            snd (saveOrders
                   ((fst (loadOrders (now_load e) s))
                      [i := (fst (loadOrders (now_load e) s) ! i)\<lparr>status := decisionStatus a\<rparr>])
                   (now_save e) (write_result e) (snd (loadOrders (now_load e) s))))"
  using assms
  by (simp add: acceptDecline_def split_def Let_def saveOrders_result split: sum.split)

lemma warm_load: "loadOrders (now_load sample_env) warm_state = (three_orders, warm_state)"
  by (rule loadOrders_hit) (simp_all add: warm_state_def sample_env_def CACHE_TTL_def)


lemma newOrder_fields:
  "uuid (newOrder b e) = random_uuid e"
  "status (newOrder b e) = ''Pending''"
  "payment (newOrder b e) = UNPAID"
  "paidAt (newOrder b e) = None"
  "createdAt (newOrder b e) = iso_time e"
  "order_notes (newOrder b e) = []"
  by (simp_all add: newOrder_def Let_def)



lemma noteCmd_not_found:
  assumes "arg \<noteq> []" and "newNote \<noteq> []"
      and "findIndex (\<lambda>x. startsWith (uuid x) arg) (fst (loadOrders (now_load e) s)) = None"
  shows "noteCmd arg newNote e s = (Inr NoOrderFound, snd (loadOrders (now_load e) s))"
  using assms by (simp add: noteCmd_def split_def)

lemma noteCmd_usage:
  assumes "arg = [] \<or> newNote = []"
  shows "noteCmd arg newNote e s = (Inr Usage, s)"
  using assms by (auto simp: noteCmd_def)




lemma findLastIndex_pending:
  "findLastIndex (\<lambda>x. clientDiscordId x = d \<and> status x = ''Pending'') xs = findLatestPending xs d"
proof -
  have "findLastIndexFrom (\<lambda>x. clientDiscordId x = d \<and> status x = ''Pending'') xs n =
        lastPendingFrom xs d n" for n
    by (induction n) simp_all
  then show ?thesis by (simp add: findLastIndex_def findLatestPending_def)
qed

section \<open>Facts about the payment invariant\<close>

lemma PAID_neq_UNPAID: "UNPAID \<noteq> PAID"
  by (simp add: PAID_def UNPAID_def)

lemma list_all_update_nth:
  "list_all P xs \<Longrightarrow> (\<And>x. P x \<Longrightarrow> P (f x)) \<Longrightarrow> list_all P (xs[i := f (xs ! i)])"
proof (induction xs arbitrary: i)
  case Nil
  then show ?case by simp
next
  case (Cons x xs)
  then show ?case by (cases i) auto
qed

lemma map_update_nth_same:
  "(\<And>x. g (f x) = g x) \<Longrightarrow> map g (xs[i := f (xs ! i)]) = map g xs"
proof (induction xs arbitrary: i)
  case Nil
  then show ?case by simp
next
  case (Cons x xs)
  then show ?case by (cases i) auto
qed

lemma list_all_drop: "list_all P xs \<Longrightarrow> list_all P (drop n xs)"
  by (auto simp: list_all_iff dest: in_set_dropD)

lemma stateInv_load:
  assumes "stateInv s"
  shows "stateInv (snd (loadOrders now s)) \<and> list_all paidInv (fst (loadOrders now s))"
proof (cases rule: loadOrders_cases [of s now])
  case (hit c)
  with assms show ?thesis by (simp add: stateInv_def cachedOrders_def)
next
  case miss
  from assms have "list_all paidInv (retained (ordersFile s))"
    by (simp add: stateInv_def retained_def list_all_drop)
  with assms miss(2) show ?thesis by (simp add: stateInv_def cachedOrders_def)
qed

lemma stateInv_save:
  assumes "stateInv s" and "list_all paidInv orders"
  shows "stateInv (snd (saveOrders orders now w s))"
  using assms
  by (cases w) (simp_all add: stateInv_def cachedOrders_def fileOrders_def saveOrders_def writeFile_def)

lemma stateInv_update:
  assumes "stateInv s" and "\<And>x. paidInv x \<Longrightarrow> paidInv (f x)"
  shows "stateInv (snd (saveOrders ((fst (loadOrders t s))[i := f (fst (loadOrders t s) ! i)])
                          t' w (snd (loadOrders t s))))"
proof -
  from stateInv_load [OF assms(1), of t]
  have a: "stateInv (snd (loadOrders t s))" and b: "list_all paidInv (fst (loadOrders t s))"
    by simp_all
  from list_all_update_nth [where P = paidInv and f = f, OF b assms(2)]
  have "list_all paidInv ((fst (loadOrders t s))[i := f (fst (loadOrders t s) ! i)])" .
  with a show ?thesis by (rule stateInv_save)
qed

lemma orderCmd_state:
  "snd (orderCmd arg e s) = (if arg = [] then s else snd (loadOrders (now_load e) s))"
  by (simp add: orderCmd_def split_def Let_def split: option.split)

lemma setstatusCmd_state:
  "snd (setstatusCmd arg st e s) =
     (if arg = [] \<or> st = [] then s
      else (case findIndex (\<lambda>x. startsWith (uuid x) arg) (fst (loadOrders (now_load e) s)) of
              None \<Rightarrow> snd (loadOrders (now_load e) s)
            | Some idx \<Rightarrow>
                snd (saveOrders
                       ((fst (loadOrders (now_load e) s))
                          [idx := (fst (loadOrders (now_load e) s) ! idx)\<lparr>status := st\<rparr>])
                       (now_save e) (write_result e) (snd (loadOrders (now_load e) s)))))"
  by (simp add: setstatusCmd_def split_def Let_def split: option.split sum.split)

lemma noteCmd_state:
  "snd (noteCmd arg n e s) =
     (if arg = [] \<or> n = [] then s
      else (case findIndex (\<lambda>x. startsWith (uuid x) arg) (fst (loadOrders (now_load e) s)) of
              None \<Rightarrow> snd (loadOrders (now_load e) s)
            | Some idx \<Rightarrow>
                snd (saveOrders
                       ((fst (loadOrders (now_load e) s))
                          [idx := (fst (loadOrders (now_load e) s) ! idx)\<lparr>order_notes := n\<rparr>])
                       (now_save e) (write_result e) (snd (loadOrders (now_load e) s)))))"
  by (simp add: noteCmd_def split_def Let_def split: option.split sum.split)

lemma acceptDecline_state:
  "snd (acceptDecline a d e s) =
     (case findLatestPending (fst (loadOrders (now_load e) s)) d of
        None \<Rightarrow> snd (loadOrders (now_load e) s)
      | Some idx \<Rightarrow>
          snd (saveOrders
                 ((fst (loadOrders (now_load e) s))
                    [idx := (fst (loadOrders (now_load e) s) ! idx)\<lparr>status := decisionStatus a\<rparr>])
                 (now_save e) (write_result e) (snd (loadOrders (now_load e) s))))"
  by (simp add: acceptDecline_def split_def Let_def split: option.split sum.split)

lemma paidCmd_state:
  "snd (paidCmd paid arg e s) =
     (if arg = [] then s
      else (case findIndex (\<lambda>x. startsWith (uuid x) arg) (fst (loadOrders (now_load e) s)) of
              None \<Rightarrow> snd (loadOrders (now_load e) s)
            | Some idx \<Rightarrow>
                snd (saveOrders
                       ((fst (loadOrders (now_load e) s))
                          [idx := (fst (loadOrders (now_load e) s) ! idx)
                                    \<lparr>payment := (if paid then PAID else UNPAID),
                                     paidAt := (if paid then Some (iso_time e) else None)\<rparr>])
                       (now_save e) (write_result e) (snd (loadOrders (now_load e) s)))))"
proof (cases "arg = []")
  case True
  then show ?thesis by (simp add: paidCmd_def)
next
  case False
  let ?orders = "fst (loadOrders (now_load e) s)"
  show ?thesis
  proof (cases "findIndex (\<lambda>x. startsWith (uuid x) arg) ?orders")
    case None
    with False show ?thesis by (simp add: paidCmd_def split_def)
  next
    case (Some idx)
    then have l: "idx < length ?orders" by (simp add: findIndex_Some)
    from False Some l show ?thesis
      by (simp add: paidCmd_def split_def Let_def split: sum.split)
  qed
qed

lemma postInquiry_state:
  "snd (postInquiry b e s) = s \<or> snd (postInquiry b e s) = snd (createOrder b e s)"
  by (simp add: postInquiry_def split_def Let_def split: sum.split)

lemma createOrder_state:
  "snd (createOrder b e s) =
     snd (saveOrders (fst (loadOrders (now_load e) s) @ [newOrder b e])
                     (now_save e) (write_result e) (snd (loadOrders (now_load e) s)))"
  by (simp add: createOrder_def split_def Let_def split: sum.split)

lemma paidInv_newOrder: "paidInv (newOrder b e)"
  by (simp add: paidInv_def newOrder_fields PAID_neq_UNPAID)

lemma stateInv_step:
  assumes "stateInv s"
  shows "stateInv (step c e s)"
proof (cases c)
  case (Inquiry b)
  from stateInv_load [OF assms, of "now_load e"]
  have "stateInv (snd (createOrder b e s))"
    unfolding createOrder_state
    by (intro stateInv_save) (simp_all add: paidInv_newOrder)
  with assms Inquiry postInquiry_state [of b e s] show ?thesis by auto
next
  case (ShowOrder arg)
  with assms stateInv_load [OF assms, of "now_load e"] show ?thesis
    by (simp add: orderCmd_state)
next
  case (MarkPaid paid arg)
  have "stateInv (snd (saveOrders
          ((fst (loadOrders t s))
             [i := (\<lambda>x. x\<lparr>payment := (if paid then PAID else UNPAID),
                           paidAt := (if paid then Some (iso_time e) else None)\<rparr>)
                     (fst (loadOrders t s) ! i)])
          t' w (snd (loadOrders t s))))" for t i t' w
    by (rule stateInv_update [OF assms]) (simp add: paidInv_def PAID_neq_UNPAID)
  with MarkPaid assms stateInv_load [OF assms, of "now_load e"]
  show ?thesis by (cases paid) (simp_all add: paidCmd_state split: option.split)
next
  case (SetStatus arg st)
  have "stateInv (snd (saveOrders
          ((fst (loadOrders t s))[i := (\<lambda>x. x\<lparr>status := st\<rparr>) (fst (loadOrders t s) ! i)])
          t' w (snd (loadOrders t s))))" for t i t' w
    by (rule stateInv_update [OF assms]) (simp add: paidInv_def)
  with SetStatus assms stateInv_load [OF assms, of "now_load e"]
  show ?thesis by (simp add: setstatusCmd_state split: option.split)
next
  case (SetNote arg n)
  have "stateInv (snd (saveOrders
          ((fst (loadOrders t s))[i := (\<lambda>x. x\<lparr>order_notes := n\<rparr>) (fst (loadOrders t s) ! i)])
          t' w (snd (loadOrders t s))))" for t i t' w
    by (rule stateInv_update [OF assms]) (simp add: paidInv_def)
  with SetNote assms stateInv_load [OF assms, of "now_load e"]
  show ?thesis by (simp add: noteCmd_state split: option.split)
next
  case (Decide a d)
  have "stateInv (snd (saveOrders
          ((fst (loadOrders t s))[i := (\<lambda>x. x\<lparr>status := decisionStatus a\<rparr>) (fst (loadOrders t s) ! i)])
          t' w (snd (loadOrders t s))))" for t i t' w
    by (rule stateInv_update [OF assms]) (simp add: paidInv_def)
  with Decide assms stateInv_load [OF assms, of "now_load e"]
  show ?thesis by (simp add: acceptDecline_state split: option.split)
qed

lemma cachedOrders_load: "cachedOrders (snd (loadOrders now s)) = fst (loadOrders now s)"
  by (simp add: cachedOrders_def loadOrders_cache)

lemma cachedOrders_save: "cachedOrders (snd (saveOrders orders now w s)) = orders"
  by (simp add: cachedOrders_def saveOrders_cache)

lemma paidCmd_effect:
  assumes "arg \<noteq> []"
      and "findIndex (\<lambda>x. startsWith (uuid x) arg) (fst (loadOrders (now_load e) s)) = Some idx"
  shows "payment (cachedOrders (snd (paidCmd paid arg e s)) ! idx) = (if paid then PAID else UNPAID) \<and>
         paidAt (cachedOrders (snd (paidCmd paid arg e s)) ! idx) =
           (if paid then Some (iso_time e) else None)"
proof -
  from assms(2) have "idx < length (fst (loadOrders (now_load e) s))"
    by (simp add: findIndex_Some)
  with assms show ?thesis
    by (simp add: paidCmd_state cachedOrders_save)
qed

lemma frame_step:
  assumes "\<not> setsPayment c"
  shows "step c e s = s \<or>
         map (\<lambda>x. (payment x, paidAt x)) (cachedOrders (step c e s)) =
           map (\<lambda>x. (payment x, paidAt x)) (fst (loadOrders (now_load e) s))"
proof (cases c)
  case (Inquiry b)
  with assms show ?thesis by (simp add: setsPayment_def)
next
  case (MarkPaid paid arg)
  with assms show ?thesis by (simp add: setsPayment_def)
next
  case (ShowOrder arg)
  then show ?thesis by (simp add: orderCmd_state cachedOrders_load)
next
  case (SetStatus arg st)
  have "map (\<lambda>x. (payment x, paidAt x)) (xs[i := (\<lambda>x. x\<lparr>status := st\<rparr>) (xs ! i)]) =
        map (\<lambda>x. (payment x, paidAt x)) xs" for xs :: "order list" and i
    by (rule map_update_nth_same) simp
  with SetStatus show ?thesis
    by (simp add: setstatusCmd_state cachedOrders_load cachedOrders_save split: option.split)
next
  case (SetNote arg n)
  have "map (\<lambda>x. (payment x, paidAt x)) (xs[i := (\<lambda>x. x\<lparr>order_notes := n\<rparr>) (xs ! i)]) =
        map (\<lambda>x. (payment x, paidAt x)) xs" for xs :: "order list" and i
    by (rule map_update_nth_same) simp
  with SetNote show ?thesis
    by (simp add: noteCmd_state cachedOrders_load cachedOrders_save split: option.split)
next
  case (Decide a d)
  have "map (\<lambda>x. (payment x, paidAt x)) (xs[i := (\<lambda>x. x\<lparr>status := decisionStatus a\<rparr>) (xs ! i)]) =
        map (\<lambda>x. (payment x, paidAt x)) xs" for xs :: "order list" and i
    by (rule map_update_nth_same) simp
  with Decide show ?thesis
    by (simp add: acceptDecline_state cachedOrders_load cachedOrders_save split: option.split)
qed

lemma warm_stateInv: "stateInv warm_state"
  by (simp add: stateInv_def warm_state_def cachedOrders_def fileOrders_def three_orders_def
        sample_order_def paidInv_def PAID_neq_UNPAID)

section \<open>Write-through and reading back\<close>

text \<open>
  C1. After \<^verbatim>\<open>saveOrders\<close> at time \<open>t\<close>, a \<^verbatim>\<open>loadOrders\<close> at any time
  \<open>t'\<close> with \<open>t' - t\<close> below the time to live returns exactly the saved sequence and
  leaves the state as it is, whatever the sequence, the earlier state and the outcome of
  the file write.
\<close>

theorem write_then_read_within_ttl:
  assumes "t' - t < CACHE_TTL"
  shows "loadOrders t' (snd (saveOrders orders t w s)) = (orders, snd (saveOrders orders t w s))"
  using assms by (intro loadOrders_hit) (simp_all add: saveOrders_cache saveOrders_stamp)

theorem write_then_read_within_ttl_witness:
  "(1005::int) - 1000 < CACHE_TTL \<and>
   fst (loadOrders 1005 (snd (saveOrders [sample_order ''a1'' ''12345678901234567''] 1000 WriteOk initial_state)))
     = [sample_order ''a1'' ''12345678901234567'']"
proof -
  have h: "(1005::int) - 1000 < CACHE_TTL" by (simp add: CACHE_TTL_def)
  show ?thesis
    using h write_then_read_within_ttl [OF h, of "[sample_order ''a1'' ''12345678901234567'']" WriteOk initial_state]
    by simp
qed

section \<open>A write that fails\<close>

text \<open>
  C2 as the specification states it does not hold: a write-through whose file write fails
  has already changed the snapshot and the timestamp. Here the first write of a fresh
  process fails before the file is touched; the snapshot is no longer \<^verbatim>\<open>null\<close> and
  the timestamp is no longer \<open>0\<close>.
\<close>

theorem failed_write_changes_cache:
  "fst (saveOrders [sample_order ''a1'' ''12345678901234567''] 1000 WriteFailedUntouched initial_state)
     = Inl StorageError \<and>
   ordersCache (snd (saveOrders [sample_order ''a1'' ''12345678901234567''] 1000 WriteFailedUntouched initial_state))
     \<noteq> ordersCache initial_state \<and>
   lastOrdersLoad (snd (saveOrders [sample_order ''a1'' ''12345678901234567''] 1000 WriteFailedUntouched initial_state))
     \<noteq> lastOrdersLoad initial_state"
  by (simp add: saveOrders_cache saveOrders_stamp saveOrders_result initial_state_def)

text \<open>
  C2, amended. When the file write of \<^verbatim>\<open>saveOrders\<close> fails, the error is passed on
  to the caller, and the cache was updated before the write was tried: the snapshot is the
  new sequence and the timestamp is the time of the call. The file keeps its earlier
  contents or is left unparseable, and a read within the time to live returns the sequence
  that was not stored.
\<close>

theorem failed_write_cache_already_updated:
  assumes "w \<noteq> WriteOk"
  shows "fst (saveOrders orders t w s) = Inl StorageError \<and>
         ordersCache (snd (saveOrders orders t w s)) = Some orders \<and>
         lastOrdersLoad (snd (saveOrders orders t w s)) = t \<and>
         ordersFile (snd (saveOrders orders t w s)) =
           (if w = WriteFailedUntouched then ordersFile s else Unparseable) \<and>
         (\<forall>t'. t' - t < CACHE_TTL \<longrightarrow>
            fst (loadOrders t' (snd (saveOrders orders t w s))) = orders)"
proof -
  have "\<forall>t'. t' - t < CACHE_TTL \<longrightarrow>
          fst (loadOrders t' (snd (saveOrders orders t w s))) = orders"
    by (simp add: loadOrders_hit saveOrders_cache saveOrders_stamp)
  moreover have "ordersFile (snd (saveOrders orders t w s)) =
           (if w = WriteFailedUntouched then ordersFile s else Unparseable)"
    using assms by (cases w) (simp_all add: saveOrders_file)
  ultimately show ?thesis
    using assms by (simp add: saveOrders_cache saveOrders_stamp saveOrders_result)
qed

theorem failed_write_cache_already_updated_witness:
  "WriteFailedTruncated \<noteq> WriteOk \<and>
   fst (saveOrders [sample_order ''a1'' ''12345678901234567''] 1000 WriteFailedTruncated initial_state)
     = Inl StorageError \<and>
   ordersCache (snd (saveOrders [sample_order ''a1'' ''12345678901234567''] 1000 WriteFailedTruncated initial_state))
     = Some [sample_order ''a1'' ''12345678901234567''] \<and>
   lastOrdersLoad (snd (saveOrders [sample_order ''a1'' ''12345678901234567''] 1000 WriteFailedTruncated initial_state))
     = 1000 \<and>
   ordersFile (snd (saveOrders [sample_order ''a1'' ''12345678901234567''] 1000 WriteFailedTruncated initial_state))
     = Unparseable"
proof -
  have h: "WriteFailedTruncated \<noteq> WriteOk" by simp
  show ?thesis
    using failed_write_cache_already_updated
            [OF h, of "[sample_order ''a1'' ''12345678901234567'']" 1000 initial_state]
    by simp
qed

section \<open>Retention\<close>

text \<open>
  C3 as the specification states it does not hold: the cap is applied only when
  \<^verbatim>\<open>loadOrders\<close> reloads the file. The file holds 500 orders and the process has
  just started; one inquiry is stored, and a read one millisecond later returns 501 orders,
  the oldest still first, and the file holds 501 orders as well.
\<close>

theorem insert_beyond_cap_keeps_all:
  "MAX_ORDERS_MEMORY = 500 \<and>
   length (fileOrders (ordersFile full_store)) = 500 \<and>
   fst (loadOrders 100002 (snd (createOrder sample_inquiry sample_env full_store)))
     = map numbered_order [0..<500] @ [newOrder sample_inquiry sample_env] \<and>
   length (fst (loadOrders 100002 (snd (createOrder sample_inquiry sample_env full_store)))) = 501 \<and>
   hd (fst (loadOrders 100002 (snd (createOrder sample_inquiry sample_env full_store)))) = numbered_order 0 \<and>
   length (fileOrders (ordersFile (snd (createOrder sample_inquiry sample_env full_store)))) = 501"
proof -
  let ?s = "snd (createOrder sample_inquiry sample_env full_store)"
  let ?all = "map numbered_order [0..<500] @ [newOrder sample_inquiry sample_env]"
  have c: "ordersCache ?s = Some ?all"
    by (simp add: createOrder_cache full_store_load)
  have t: "100002 - lastOrdersLoad ?s < CACHE_TTL"
    by (simp add: createOrder_stamp sample_env_def CACHE_TTL_def)
  have l: "fst (loadOrders 100002 ?s) = ?all"
    using loadOrders_hit [OF c t] by simp
  have w: "write_result sample_env = WriteOk"
    by (simp add: sample_env_def)
  have f: "ordersFile ?s = Parsed (JsonArray ?all)"
    using createOrder_file [OF w, of sample_inquiry full_store]
    by (simp add: full_store_load)
  have h: "hd ?all = numbered_order 0"
    by (simp add: hd_append hd_map upt_conv_Cons)
  have z: "length (fileOrders (ordersFile full_store)) = 500"
    by (simp add: full_store_def fileOrders_def)
  show ?thesis
    unfolding l f using h z by (simp add: fileOrders_def MAX_ORDERS_MEMORY_def)
qed

text \<open>
  C3, amended. A read that reloads the file (the cache is unpopulated or as old as the time
  to live) returns and caches exactly the last \<^verbatim>\<open>MAX_ORDERS_MEMORY\<close> orders of
  the array in the file, in their order there, and all of them when there are no more than
  that; the file itself is left as it is. With 510 orders in the file the read returns the
  last 500. A write-through stores the whole sequence it is given, in the cache and, the
  write succeeding, in the file, and a read within the time to live returns the whole of it.
\<close>

theorem reload_keeps_last_cap:
  assumes "ordersFile s = Parsed (JsonArray xs)"
      and "ordersCache s = None \<or> CACHE_TTL \<le> now - lastOrdersLoad s"
  shows "fst (loadOrders now s) = drop (length xs - MAX_ORDERS_MEMORY) xs \<and>
         length (fst (loadOrders now s)) = min (length xs) MAX_ORDERS_MEMORY \<and>
         ordersCache (snd (loadOrders now s)) = Some (drop (length xs - MAX_ORDERS_MEMORY) xs) \<and>
         ordersFile (snd (loadOrders now s)) = Parsed (JsonArray xs) \<and>
         (\<forall>orders t w t'. t' - t < CACHE_TTL \<longrightarrow>
            fst (loadOrders t' (snd (saveOrders orders t w s))) = orders \<and>
            (w = WriteOk \<longrightarrow>
               ordersFile (snd (saveOrders orders t w s)) = Parsed (JsonArray orders)))"
proof -
  have "\<forall>orders t w t'. t' - t < CACHE_TTL \<longrightarrow>
            fst (loadOrders t' (snd (saveOrders orders t w s))) = orders \<and>
            (w = WriteOk \<longrightarrow>
               ordersFile (snd (saveOrders orders t w s)) = Parsed (JsonArray orders))"
    by (simp add: loadOrders_hit saveOrders_cache saveOrders_stamp saveOrders_file)
  with loadOrders_miss [OF assms(2)] assms(1) show ?thesis
    by (simp add: retained_def fileOrders_def min_def)
qed

theorem reload_keeps_last_cap_witness:
  "fst (loadOrders 7 \<lparr>ordersCache = None, lastOrdersLoad = 0,
                      ordersFile = Parsed (JsonArray (map numbered_order [0..<510])), writeCalls = 0\<rparr>)
     = map numbered_order [10..<510] \<and>
   length (fst (loadOrders 7 \<lparr>ordersCache = None, lastOrdersLoad = 0,
                      ordersFile = Parsed (JsonArray (map numbered_order [0..<510])), writeCalls = 0\<rparr>))
     = 500"
proof -
  let ?s = "\<lparr>ordersCache = None, lastOrdersLoad = 0,
             ordersFile = Parsed (JsonArray (map numbered_order [0..<510])), writeCalls = 0\<rparr>"
  have a: "ordersFile ?s = Parsed (JsonArray (map numbered_order [0..<510]))" by simp
  have b: "ordersCache ?s = None \<or> CACHE_TTL \<le> 7 - lastOrdersLoad ?s" by simp
  show ?thesis
    using reload_keeps_last_cap [OF a b]
    by (simp add: MAX_ORDERS_MEMORY_def drop_map)
qed

section \<open>A file that cannot be read\<close>

text \<open>
  C5. When the orders file is missing or its text does not parse, a read that goes to the
  file (the cache is unpopulated or as old as the time to live) returns the empty sequence
  and caches it; no error comes back, the result type has none. The read of the older
  server, which has no cache, returns the empty array for the same files.
\<close>

theorem unreadable_file_reads_empty:
  assumes "ordersFile s = Missing \<or> ordersFile s = Unparseable"
      and "ordersCache s = None \<or> CACHE_TTL \<le> now - lastOrdersLoad s"
  shows "loadOrders now s = ([], s\<lparr>ordersCache := Some [], lastOrdersLoad := now\<rparr>) \<and>
         loadOrders_sync (ordersFile s) = JsonArray []"
proof -
  from assms(1) have "retained (ordersFile s) = []"
    by (auto simp: retained_def fileOrders_def)
  with loadOrders_miss [OF assms(2)] assms(1) show ?thesis
    by (auto simp: loadOrders_sync_def)
qed

theorem unreadable_file_reads_empty_witness:
  "loadOrders 5 initial_state = ([], initial_state\<lparr>ordersCache := Some [], lastOrdersLoad := 5\<rparr>) \<and>
   loadOrders_sync Missing = JsonArray [] \<and>
   fst (loadOrders 40000 \<lparr>ordersCache = Some [sample_order ''a1'' ''12345678901234567''],
                          lastOrdersLoad = 1000, ordersFile = Unparseable, writeCalls = 1\<rparr>) = [] \<and>
   loadOrders_sync Unparseable = JsonArray []"
proof -
  let ?s = "\<lparr>ordersCache = Some [sample_order ''a1'' ''12345678901234567''],
             lastOrdersLoad = 1000, ordersFile = Unparseable, writeCalls = 1\<rparr>"
  have a: "ordersFile initial_state = Missing \<or> ordersFile initial_state = Unparseable"
    by (simp add: initial_state_def)
  have b: "ordersCache initial_state = None \<or> CACHE_TTL \<le> 5 - lastOrdersLoad initial_state"
    by (simp add: initial_state_def)
  have c: "ordersFile ?s = Missing \<or> ordersFile ?s = Unparseable" by simp
  have d: "ordersCache ?s = None \<or> CACHE_TTL \<le> 40000 - lastOrdersLoad ?s"
    by (simp add: CACHE_TTL_def)
  show ?thesis
    using unreadable_file_reads_empty [OF a b] unreadable_file_reads_empty [OF c d]
    by (simp add: initial_state_def)
qed

section \<open>Accept and decline\<close>

text \<open>
  C7. The accept and decline buttons scan the collection from the last order to the first
  and stop at the first order whose \<^verbatim>\<open>clientDiscordId\<close> is the identifier of the
  button and whose status is \<^verbatim>\<open>"Pending"\<close>: the index found is the greatest index
  of such an order, and nothing is found exactly when there is no such order. The order
  found is the one whose status is set (in the cache, and in the file when the write
  succeeds); when nothing is found the handler reports that and the collection read stays
  in the cache as it is.
\<close>

theorem accept_decline_latest_pending:
  assumes "orders = fst (loadOrders (now_load e) s)"
  shows "(findLatestPending orders d = Some i \<longleftrightarrow>
            i < length orders \<and> clientDiscordId (orders ! i) = d \<and> status (orders ! i) = ''Pending'' \<and>
            (\<forall>j. i < j \<and> j < length orders \<longrightarrow>
                \<not> (clientDiscordId (orders ! j) = d \<and> status (orders ! j) = ''Pending''))) \<and>
         (findLatestPending orders d = None \<longleftrightarrow>
            (\<forall>j<length orders. \<not> (clientDiscordId (orders ! j) = d \<and> status (orders ! j) = ''Pending''))) \<and>
         (findLatestPending orders d = Some i \<longrightarrow>
            ordersCache (snd (acceptDecline a d e s)) =
              Some (orders[i := (orders ! i)\<lparr>status := decisionStatus a\<rparr>]) \<and>
            fst (acceptDecline a d e s) =
              (if write_result e = WriteOk then Inr (Some i) else Inl StorageError) \<and>
            (write_result e = WriteOk \<longrightarrow>
               ordersFile (snd (acceptDecline a d e s)) =
                 Parsed (JsonArray (orders[i := (orders ! i)\<lparr>status := decisionStatus a\<rparr>])))) \<and>
         (findLatestPending orders d = None \<longrightarrow>
            fst (acceptDecline a d e s) = Inr None \<and>
            ordersCache (snd (acceptDecline a d e s)) = Some orders)"
proof -
  have a: "findLatestPending orders d = Some i \<longleftrightarrow>
            i < length orders \<and> clientDiscordId (orders ! i) = d \<and> status (orders ! i) = ''Pending'' \<and>
            (\<forall>j. i < j \<and> j < length orders \<longrightarrow>
                \<not> (clientDiscordId (orders ! j) = d \<and> status (orders ! j) = ''Pending''))"
    unfolding findLatestPending_def by (rule lastPendingFrom_Some)
  have b: "findLatestPending orders d = None \<longleftrightarrow>
            (\<forall>j<length orders. \<not> (clientDiscordId (orders ! j) = d \<and> status (orders ! j) = ''Pending''))"
    unfolding findLatestPending_def by (rule lastPendingFrom_None)
  have c: "findLatestPending orders d = Some i \<longrightarrow>
            ordersCache (snd (acceptDecline a d e s)) =
              Some (orders[i := (orders ! i)\<lparr>status := decisionStatus a\<rparr>]) \<and>
            fst (acceptDecline a d e s) =
              (if write_result e = WriteOk then Inr (Some i) else Inl StorageError) \<and>
            (write_result e = WriteOk \<longrightarrow>
               ordersFile (snd (acceptDecline a d e s)) =
                 Parsed (JsonArray (orders[i := (orders ! i)\<lparr>status := decisionStatus a\<rparr>])))"
    unfolding assms
    by (auto simp: acceptDecline_some saveOrders_cache saveOrders_file)
  have d: "findLatestPending orders d = None \<longrightarrow>
            fst (acceptDecline a d e s) = Inr None \<and>
            ordersCache (snd (acceptDecline a d e s)) = Some orders"
    unfolding assms by (auto simp: acceptDecline_none loadOrders_cache)
  from a b c d show ?thesis by blast
qed

theorem accept_decline_latest_pending_witness:
  "three_orders = fst (loadOrders (now_load sample_env) warm_state) \<and>
   findLatestPending three_orders ''12345678901234567'' = Some 1 \<and>
   fst (acceptDecline Accept ''12345678901234567'' sample_env warm_state) = Inr (Some 1) \<and>
   ordersCache (snd (acceptDecline Accept ''12345678901234567'' sample_env warm_state)) =
     Some [sample_order ''a1b2c3d4-0001'' ''12345678901234567'',
           (sample_order ''a1b2c3d4-0002'' ''12345678901234567'')\<lparr>status := ''Accepted''\<rparr>,
           sample_order ''ffff0000-0003'' ''76543210987654321''] \<and>
   findLatestPending three_orders ''00000000000000000'' = None \<and>
   fst (acceptDecline Accept ''00000000000000000'' sample_env warm_state) = Inr None"
proof -
  have h: "three_orders = fst (loadOrders (now_load sample_env) warm_state)"
    by (simp add: warm_load)
  have w: "write_result sample_env = WriteOk" by (simp add: sample_env_def)
  have p: "findLatestPending three_orders ''12345678901234567'' = Some 1"
    by (simp add: findLatestPending_def three_orders_def sample_order_def eval_nat_numeral)
  have n: "findLatestPending three_orders ''00000000000000000'' = None"
    by (simp add: findLatestPending_def three_orders_def sample_order_def eval_nat_numeral)
  have u: "three_orders[1 := (three_orders ! 1)\<lparr>status := decisionStatus Accept\<rparr>] =
             [sample_order ''a1b2c3d4-0001'' ''12345678901234567'',
              (sample_order ''a1b2c3d4-0002'' ''12345678901234567'')\<lparr>status := ''Accepted''\<rparr>,
              sample_order ''ffff0000-0003'' ''76543210987654321'']"
    by (simp add: three_orders_def decisionStatus_def)
  have r1: "fst (acceptDecline Accept ''12345678901234567'' sample_env warm_state) = Inr (Some 1)"
       "ordersCache (snd (acceptDecline Accept ''12345678901234567'' sample_env warm_state)) =
          Some (three_orders[1 := (three_orders ! 1)\<lparr>status := decisionStatus Accept\<rparr>])"
    using accept_decline_latest_pending [OF h, of "''12345678901234567''" 1 Accept] p w
    by simp_all
  have r2: "fst (acceptDecline Accept ''00000000000000000'' sample_env warm_state) = Inr None"
    using accept_decline_latest_pending [OF h, of "''00000000000000000''" 0 Accept] n
    by simp
  from h p n r1 r2 show ?thesis unfolding u by simp
qed



section \<open>Lookup by identifier prefix\<close>

text \<open>
  C6. The lookup of \<^verbatim>\<open>!order\<close> (\<^verbatim>\<open>find\<close>) and of the updating commands
  (\<^verbatim>\<open>findIndex\<close>) matches an order when the first characters of its
  \<^verbatim>\<open>uuid\<close> are exactly the characters of the prefix, so upper and lower case
  differ; of several matching orders it returns the one with the least index, the first
  in the order of the collection, and nothing when no order matches. With the identifiers
  \<^verbatim>\<open>abc123\<close> and \<^verbatim>\<open>abcd99\<close> in this order, \<^verbatim>\<open>abc\<close> finds the first.
\<close>

theorem prefix_lookup_first_match:
  "(List.find (\<lambda>x. startsWith (uuid x) p) orders = Some ord \<longleftrightarrow>
      (\<exists>i<length orders. orders ! i = ord \<and> take (length p) (uuid ord) = p \<and>
          (\<forall>j<i. take (length p) (uuid (orders ! j)) \<noteq> p))) \<and>
   (findIndex (\<lambda>x. startsWith (uuid x) p) orders = Some i \<longleftrightarrow>
      i < length orders \<and> take (length p) (uuid (orders ! i)) = p \<and>
      (\<forall>j<i. take (length p) (uuid (orders ! j)) \<noteq> p)) \<and>
   (List.find (\<lambda>x. startsWith (uuid x) p) orders = None \<longleftrightarrow>
      (\<forall>x\<in>set orders. take (length p) (uuid x) \<noteq> p)) \<and>
   (p \<noteq> [] \<longrightarrow>
      fst (orderCmd p e s) =
        Inr (case List.find (\<lambda>x. startsWith (uuid x) p) (fst (loadOrders (now_load e) s)) of
               None \<Rightarrow> NoOrderFound | Some found \<Rightarrow> OrderDetails found))"
proof -
  let ?P = "\<lambda>x. startsWith (uuid x) p"
  have ix: "\<And>k. findIndex ?P orders = Some k \<longleftrightarrow>
      k < length orders \<and> take (length p) (uuid (orders ! k)) = p \<and>
      (\<forall>j<k. take (length p) (uuid (orders ! j)) \<noteq> p)"
    by (simp add: findIndex_Some startsWith_take)
  have a: "List.find ?P orders = Some ord \<longleftrightarrow>
      (\<exists>i<length orders. orders ! i = ord \<and> take (length p) (uuid ord) = p \<and>
          (\<forall>j<i. take (length p) (uuid (orders ! j)) \<noteq> p))"
  proof
    assume "List.find ?P orders = Some ord"
    then obtain k where k: "findIndex ?P orders = Some k" "orders ! k = ord"
      by (auto simp: find_findIndex split: option.splits)
    with ix [of k] show "\<exists>i<length orders. orders ! i = ord \<and> take (length p) (uuid ord) = p \<and>
          (\<forall>j<i. take (length p) (uuid (orders ! j)) \<noteq> p)"
      by auto
  next
    assume "\<exists>i<length orders. orders ! i = ord \<and> take (length p) (uuid ord) = p \<and>
          (\<forall>j<i. take (length p) (uuid (orders ! j)) \<noteq> p)"
    then obtain k where "k < length orders" "orders ! k = ord" "take (length p) (uuid ord) = p"
        "\<forall>j<k. take (length p) (uuid (orders ! j)) \<noteq> p"
      by blast
    with ix [of k] have "findIndex ?P orders = Some k" by simp
    with \<open>orders ! k = ord\<close> show "List.find ?P orders = Some ord"
      by (simp add: find_findIndex)
  qed
  have c: "List.find ?P orders = None \<longleftrightarrow> (\<forall>x\<in>set orders. take (length p) (uuid x) \<noteq> p)"
    by (auto simp: find_None_iff startsWith_take)
  have d: "p \<noteq> [] \<longrightarrow>
      fst (orderCmd p e s) =
        Inr (case List.find ?P (fst (loadOrders (now_load e) s)) of
               None \<Rightarrow> NoOrderFound | Some found \<Rightarrow> OrderDetails found)"
    by (simp add: orderCmd_def split_def split: option.split)
  from a ix [of i] c d show ?thesis by blast
qed

theorem prefix_lookup_first_match_witness:
  "List.find (\<lambda>x. startsWith (uuid x) ''abc'') prefix_orders =
     Some (sample_order ''abc123'' ''12345678901234567'') \<and>
   findIndex (\<lambda>x. startsWith (uuid x) ''abc'') prefix_orders = Some 0 \<and>
   List.find (\<lambda>x. startsWith (uuid x) ''abcd'') prefix_orders =
     Some (sample_order ''abcd99'' ''12345678901234567'') \<and>
   List.find (\<lambda>x. startsWith (uuid x) ''ABC'') prefix_orders = None"
proof -
  have u: "uuid (sample_order ''abc123'' ''12345678901234567'') = ''abc123''"
          "uuid (sample_order ''abcd99'' ''12345678901234567'') = ''abcd99''"
    by (simp_all add: sample_order_def)
  have l: "length prefix_orders = 2" by (simp add: prefix_orders_def)
  have n: "prefix_orders ! 0 = sample_order ''abc123'' ''12345678901234567''"
          "prefix_orders ! Suc 0 = sample_order ''abcd99'' ''12345678901234567''"
    by (simp_all add: prefix_orders_def)
  have s: "set prefix_orders = {sample_order ''abc123'' ''12345678901234567'',
                                sample_order ''abcd99'' ''12345678901234567''}"
    by (simp add: prefix_orders_def)
  have e0: "\<exists>i<length prefix_orders. prefix_orders ! i = sample_order ''abc123'' ''12345678901234567'' \<and>
              take (length ''abc'') (uuid (sample_order ''abc123'' ''12345678901234567'')) = ''abc'' \<and>
              (\<forall>j<i. take (length ''abc'') (uuid (prefix_orders ! j)) \<noteq> ''abc'')"
    by (rule exI [of _ 0]) (simp add: l n u)
  have e1: "\<exists>i<length prefix_orders. prefix_orders ! i = sample_order ''abcd99'' ''12345678901234567'' \<and>
              take (length ''abcd'') (uuid (sample_order ''abcd99'' ''12345678901234567'')) = ''abcd'' \<and>
              (\<forall>j<i. take (length ''abcd'') (uuid (prefix_orders ! j)) \<noteq> ''abcd'')"
    by (rule exI [of _ 1]) (simp add: l n u)
  have a: "List.find (\<lambda>x. startsWith (uuid x) ''abc'') prefix_orders =
             Some (sample_order ''abc123'' ''12345678901234567'')"
          "findIndex (\<lambda>x. startsWith (uuid x) ''abc'') prefix_orders = Some 0"
    using prefix_lookup_first_match
            [of "''abc''" prefix_orders "sample_order ''abc123'' ''12345678901234567''" 0] e0
    by (simp_all add: l n u)
  have b: "List.find (\<lambda>x. startsWith (uuid x) ''abcd'') prefix_orders =
             Some (sample_order ''abcd99'' ''12345678901234567'')"
    using prefix_lookup_first_match
            [of "''abcd''" prefix_orders "sample_order ''abcd99'' ''12345678901234567''" 0] e1
    by simp
  have c: "List.find (\<lambda>x. startsWith (uuid x) ''ABC'') prefix_orders = None"
    using prefix_lookup_first_match
            [of "''ABC''" prefix_orders "sample_order ''abc123'' ''12345678901234567''" 0]
    by (simp add: s u)
  from a b c show ?thesis by simp
qed

section \<open>Creating an order\<close>




section \<open>Setting a note twice\<close>



section \<open>The payment invariant\<close>

text \<open>
  C8. \<^verbatim>\<open>paidAt\<close> is set exactly when the payment label is the paid one. When this
  holds of every order in the cache and in the file, it holds of every order in the cache
  and in the file after any operation, whatever the clock, the outcome of the write and the
  arguments. The order built by the intake has the unpaid label and \<^verbatim>\<open>paidAt\<close>
  \<^verbatim>\<open>null\<close>; \<^verbatim>\<open>!paid\<close> gives the order found the paid label and a time,
  \<^verbatim>\<open>!unpaid\<close> the unpaid label and \<^verbatim>\<open>null\<close>; every other operation either
  leaves the state as it is or leaves in the cache, position by position, the payment
  label and \<^verbatim>\<open>paidAt\<close> of the orders it read.
\<close>

theorem paid_at_iff_paid_preserved:
  assumes "stateInv s"
  shows "stateInv (step c e s) \<and>
         paidInv (newOrder b e) \<and> payment (newOrder b e) = UNPAID \<and> paidAt (newOrder b e) = None \<and>
         (arg \<noteq> [] \<and>
          findIndex (\<lambda>x. startsWith (uuid x) arg) (fst (loadOrders (now_load e) s)) = Some idx \<longrightarrow>
            payment (cachedOrders (step (MarkPaid True arg) e s) ! idx) = PAID \<and>
            paidAt (cachedOrders (step (MarkPaid True arg) e s) ! idx) = Some (iso_time e) \<and>
            payment (cachedOrders (step (MarkPaid False arg) e s) ! idx) = UNPAID \<and>
            paidAt (cachedOrders (step (MarkPaid False arg) e s) ! idx) = None) \<and>
         (\<not> setsPayment c \<longrightarrow>
            step c e s = s \<or>
            map (\<lambda>x. (payment x, paidAt x)) (cachedOrders (step c e s)) =
              map (\<lambda>x. (payment x, paidAt x)) (fst (loadOrders (now_load e) s)))"
proof -
  have a: "stateInv (step c e s)"
    by (rule stateInv_step [OF assms])
  have m: "arg \<noteq> [] \<and>
          findIndex (\<lambda>x. startsWith (uuid x) arg) (fst (loadOrders (now_load e) s)) = Some idx \<longrightarrow>
            payment (cachedOrders (step (MarkPaid True arg) e s) ! idx) = PAID \<and>
            paidAt (cachedOrders (step (MarkPaid True arg) e s) ! idx) = Some (iso_time e) \<and>
            payment (cachedOrders (step (MarkPaid False arg) e s) ! idx) = UNPAID \<and>
            paidAt (cachedOrders (step (MarkPaid False arg) e s) ! idx) = None"
    using paidCmd_effect [of arg e s idx True] paidCmd_effect [of arg e s idx False]
    by simp
  have f: "\<not> setsPayment c \<longrightarrow>
            step c e s = s \<or>
            map (\<lambda>x. (payment x, paidAt x)) (cachedOrders (step c e s)) =
              map (\<lambda>x. (payment x, paidAt x)) (fst (loadOrders (now_load e) s))"
    using frame_step [of c e s] by blast
  from a m f show ?thesis
    by (simp add: paidInv_newOrder newOrder_fields)
qed

theorem paid_at_iff_paid_preserved_witness:
  "stateInv warm_state \<and>
   stateInv (step (MarkPaid True ''a1b2c3d4-0002'') sample_env warm_state) \<and>
   payment (cachedOrders (step (MarkPaid True ''a1b2c3d4-0002'') sample_env warm_state) ! 1) = PAID \<and>
   paidAt (cachedOrders (step (MarkPaid True ''a1b2c3d4-0002'') sample_env warm_state) ! 1) =
     Some ''2024-02-02T00:00:00.000Z'' \<and>
   payment (cachedOrders (step (MarkPaid False ''a1b2c3d4-0002'') sample_env warm_state) ! 1) = UNPAID \<and>
   paidAt (cachedOrders (step (MarkPaid False ''a1b2c3d4-0002'') sample_env warm_state) ! 1) = None"
proof -
  have f: "findIndex (\<lambda>x. startsWith (uuid x) ''a1b2c3d4-0002'')
             (fst (loadOrders (now_load sample_env) warm_state)) = Some 1"
    by (simp add: warm_load three_orders_def sample_order_def)
  have i: "iso_time sample_env = ''2024-02-02T00:00:00.000Z''"
    by (simp add: sample_env_def)
  note T = paid_at_iff_paid_preserved
             [OF warm_stateInv, of "MarkPaid True ''a1b2c3d4-0002''" sample_env sample_inquiry
                "''a1b2c3d4-0002''" 1]
  have r1: "stateInv (step (MarkPaid True ''a1b2c3d4-0002'') sample_env warm_state)"
    using T by blast
  have r2: "payment (cachedOrders (step (MarkPaid True ''a1b2c3d4-0002'') sample_env warm_state) ! 1) = PAID \<and>
            paidAt (cachedOrders (step (MarkPaid True ''a1b2c3d4-0002'') sample_env warm_state) ! 1) =
              Some (iso_time sample_env) \<and>
            payment (cachedOrders (step (MarkPaid False ''a1b2c3d4-0002'') sample_env warm_state) ! 1) = UNPAID \<and>
            paidAt (cachedOrders (step (MarkPaid False ''a1b2c3d4-0002'') sample_env warm_state) ! 1) = None"
    using T f by blast
  from warm_stateInv r1 r2 i show ?thesis by simp
qed

end
